theory Spec2Isabelle
  imports Main "HOL-Library.List_Lexorder"
begin

section \<open>Python values\<close>

text \<open>
  A Python \<open>str\<close> is a sequence of Unicode code points, and \<open>len\<close>, slicing and
  iteration count code points. A code point is a \<open>nat\<close>; \<open>lit\<close> embeds an ASCII literal
  of the source.
\<close>

type_synonym pystr = "nat list"

definition lit :: "string \<Rightarrow> pystr" where
  "lit s = map of_char s"

text \<open>
  The tables and library functions of the Python runtime that the archiver calls are not
  part of the repository, so they are a parameter of every function that uses them:
  \<open>str.isalnum\<close> and \<open>str.isspace\<close> on one character, \<open>str.lower\<close> on a whole string
  (it may change the length), \<open>email.header.decode_header\<close> and \<open>bytes.decode\<close> with
  \<open>errors='replace'\<close> (which fails only on an unknown codec name).
\<close>

datatype chunk_text = Str pystr | Bytes "nat list"

datatype decode_result = DecodeRaises | Decoded "(chunk_text \<times> pystr option) list"

record runtime =
  str_isalnum :: "nat \<Rightarrow> bool"
  str_isspace :: "nat \<Rightarrow> bool"
  str_lower :: "pystr \<Rightarrow> pystr"
  decode_header :: "pystr \<Rightarrow> decode_result"
  bytes_decode :: "nat list \<Rightarrow> pystr \<Rightarrow> pystr option"

text \<open>
  An instance for evaluation: it agrees with CPython on strings of code points below 128
  that hold no encoded word \<open>=?charset?q?...?=\<close>.
\<close>

definition ascii_isalnum :: "nat \<Rightarrow> bool" where
  "ascii_isalnum c = ((48 \<le> c \<and> c \<le> 57) \<or> (65 \<le> c \<and> c \<le> 90) \<or> (97 \<le> c \<and> c \<le> 122))"

definition ascii_isspace :: "nat \<Rightarrow> bool" where
  "ascii_isspace c = ((9 \<le> c \<and> c \<le> 13) \<or> (28 \<le> c \<and> c \<le> 32))"

definition ascii_lower :: "pystr \<Rightarrow> pystr" where
  "ascii_lower s = map (\<lambda>c. if 65 \<le> c \<and> c \<le> 90 then c + 32 else c) s"

definition ascii_runtime :: runtime where
  "ascii_runtime = \<lparr> str_isalnum = ascii_isalnum, str_isspace = ascii_isspace,
     str_lower = ascii_lower, decode_header = (\<lambda>h. Decoded [(Str h, None)]),
     bytes_decode = (\<lambda>b enc. Some b) \<rparr>"

section \<open>Effects\<close>

text \<open>
  What a call does to the outside world is recorded in a trace: the warning and error
  calls of the logger (debug and info messages are left out, but for the count of
  processed messages, the only output of a run), the commands issued to the mailbox
  session and the files written.
\<close>

datatype level = INFO | WARNING | ERROR

datatype event =
    Log level string
  | Summary nat
  | Search
  | Fetch pystr
  | Flag pystr
  | Close
  | Logout
  | MakeDirs pystr
  | Wrote pystr "nat list"

section \<open>Header decoding and sanitizing\<close>

text \<open>
  \<open>safe_decode_header\<close>: \<open>None\<close> gives a fixed text; otherwise the FIRST chunk of
  \<open>decode_header(header)\<close> is taken (\<open>[0]\<close>), decoded when it is bytes; any exception
  (from \<open>decode_header\<close>, from \<open>[0]\<close> on an empty list, from an unknown codec) gives
  \<open>str(header)[:100]\<close> and a warning.
\<close>

definition safe_decode_header :: "runtime \<Rightarrow> pystr option \<Rightarrow> pystr \<times> event list" where
  "safe_decode_header U header =
     (case header of
        None \<Rightarrow> (lit ''(No Header)'', [])
      | Some h \<Rightarrow>
         (case decode_header U h of
            DecodeRaises \<Rightarrow> (take 100 h, [Log WARNING ''Header decode failed''])
          | Decoded [] \<Rightarrow> (take 100 h, [Log WARNING ''Header decode failed''])
          | Decoded ((decoded, encoding) # _) \<Rightarrow>
             (case decoded of
                Str s \<Rightarrow> (s, [])
              | Bytes b \<Rightarrow>
                 (case bytes_decode U b
                         (case encoding of None \<Rightarrow> lit ''utf-8''
                          | Some e \<Rightarrow> if e = [] then lit ''utf-8'' else e) of
                    None \<Rightarrow> (take 100 h, [Log WARNING ''Header decode failed''])
                  | Some s \<Rightarrow> (s, [])))))"

text \<open>
  The two sanitizers are written inline in \<open>process_single_email\<close>; they keep the names
  of the variables they define.
\<close>

definition safe_sender :: "runtime \<Rightarrow> pystr \<Rightarrow> pystr" where
  "safe_sender U sender =
     take 50 (map (\<lambda>c. if str_isalnum U c \<or> c \<in> set (lit ''@.-_'') then c
                        else of_char CHR ''_'')
                (takeWhile (\<lambda>c. c \<noteq> of_char CHR ''@'') sender))"

definition safe_filename :: "runtime \<Rightarrow> pystr \<Rightarrow> pystr" where
  "safe_filename U filename =
     take 100 (map (\<lambda>c. if str_isalnum U c \<or> c \<in> set (lit ''.-_'') then c
                         else of_char CHR ''_'') filename)"

section \<open>The metadata store\<close>

text \<open>
  The two tables of \<open>create_database\<close>. The columns \<open>keywords\<close> and \<open>processed_at\<close> of
  \<open>archived_emails\<close> are never written nor read by the archiver and are left out. Both
  tables have an \<open>AUTOINCREMENT\<close> key: a new row gets one more than the largest key the
  table ever held, which the database keeps in a sequence counter. \<open>email_id\<close> is
  \<open>UNIQUE\<close>. The foreign key of \<open>search_index\<close> is declared but SQLite does not enforce
  it unless asked to, and the archiver never asks.
\<close>

record archived_email =
  ae_id :: nat
  ae_email_id :: pystr
  ae_subject :: pystr
  ae_sender :: pystr
  ae_date_received :: pystr
  ae_attachments :: pystr
  ae_archive_path :: pystr

record index_row =
  si_id :: nat
  si_email_id :: nat
  si_keyword :: pystr

record database =
  archived_emails :: "archived_email list"
  search_index :: "index_row list"
  seq_archived_emails :: nat
  seq_search_index :: nat

definition empty_db :: database where
  "empty_db = \<lparr> archived_emails = [], search_index = [], seq_archived_emails = 0,
     seq_search_index = 0 \<rparr>"

datatype db_error = IntegrityError | OperationalError

definition has_record :: "database \<Rightarrow> pystr \<Rightarrow> bool" where
  "has_record db eid = (\<exists>r \<in> set (archived_emails db). ae_email_id r = eid)"

definition next_rowid :: "nat \<Rightarrow> nat list \<Rightarrow> nat" where
  "next_rowid seq ids = Suc (foldr max ids seq)"

text \<open>
  One \<open>INSERT\<close> of each kind. \<open>fault\<close> says that the statement fails for a reason of
  the environment (a locked database, a full disk); the result is the new database and
  the row id that \<open>cursor.lastrowid\<close> then holds.
\<close>

definition insert_archived_email ::
  "bool \<Rightarrow> database \<Rightarrow> pystr \<Rightarrow> pystr \<Rightarrow> pystr \<Rightarrow> pystr \<Rightarrow> pystr \<Rightarrow> pystr
     \<Rightarrow> db_error + (database \<times> nat)" where
  "insert_archived_email fault db eid subject sender date_received attachments archive_path =
     (if fault then Inl OperationalError
      else if has_record db eid then Inl IntegrityError
      else
        (let rid = next_rowid (seq_archived_emails db) (map ae_id (archived_emails db))
         in Inr (db\<lparr> archived_emails := archived_emails db @
                      [\<lparr> ae_id = rid, ae_email_id = eid, ae_subject = subject,
                         ae_sender = sender, ae_date_received = date_received,
                         ae_attachments = attachments, ae_archive_path = archive_path \<rparr>],
                    seq_archived_emails := rid \<rparr>, rid)))"

definition insert_search_index ::
  "bool \<Rightarrow> database \<Rightarrow> nat \<Rightarrow> pystr \<Rightarrow> db_error + (database \<times> nat)" where
  "insert_search_index fault db email_ref keyword =
     (if fault then Inl OperationalError
      else
        (let rid = next_rowid (seq_search_index db) (map si_id (search_index db))
         in Inr (db\<lparr> search_index := search_index db @
                      [\<lparr> si_id = rid, si_email_id = email_ref, si_keyword = keyword \<rparr>],
                    seq_search_index := rid \<rparr>, rid)))"

subsection \<open>Keyword extraction\<close>

text \<open>\<open>str.split()\<close> with no argument: the maximal runs of non-whitespace characters.\<close>

fun str_split :: "(nat \<Rightarrow> bool) \<Rightarrow> pystr \<Rightarrow> pystr \<Rightarrow> pystr list" where
  "str_split sp cur [] = (if cur = [] then [] else [cur])"
| "str_split sp cur (c # cs) =
     (if sp c then (if cur = [] then str_split sp [] cs else cur # str_split sp [] cs)
      else str_split sp (cur @ [c]) cs)"

text \<open>
  \<open>keywords\<close> (here \<open>keywords_of\<close>) is a Python set, here a list without duplicates in the order of first
  insertion. The order in which Python iterates over a set of strings is not fixed; what
  is proved of the keyword rows holds for the set, and the evaluations say where the
  order matters.
\<close>

definition set_add :: "'a \<Rightarrow> 'a list \<Rightarrow> 'a list" where
  "set_add x s = (if x \<in> set s then s else s @ [x])"

definition add_words :: "runtime \<Rightarrow> pystr \<Rightarrow> pystr list \<Rightarrow> pystr list" where
  "add_words U text kws =
     foldl (\<lambda>s word.
              let clean_word = filter (str_isalnum U) word
              in if 3 \<le> length clean_word \<and> length clean_word \<le> 30
                 then set_add clean_word s else s)
           kws (str_split (str_isspace U) [] (str_lower U text))"

definition keywords_of :: "runtime \<Rightarrow> pystr \<Rightarrow> pystr \<Rightarrow> pystr list" where
  "keywords_of U subject sender = add_words U sender (add_words U subject [])"

subsection \<open>The insert transaction\<close>

text \<open>
  The loop over the keywords reads \<open>cursor.lastrowid\<close> anew for every row, after the
  previous \<open>INSERT\<close> on the same cursor has set it.
\<close>

fun insert_keywords ::
  "(nat \<Rightarrow> bool) \<Rightarrow> nat \<Rightarrow> database \<Rightarrow> nat \<Rightarrow> pystr list \<Rightarrow> db_error + (database \<times> nat)" where
  "insert_keywords fault k db lastrowid [] = Inr (db, lastrowid)"
| "insert_keywords fault k db lastrowid (kw # kws) =
     (case insert_search_index (fault k) db lastrowid kw of
        Inl e \<Rightarrow> Inl e
      | Inr (db', rid) \<Rightarrow> insert_keywords fault (Suc k) db' rid kws)"

fun join :: "pystr \<Rightarrow> pystr list \<Rightarrow> pystr" where
  "join sep [] = []"
| "join sep [x] = x"
| "join sep (x # y # ys) = x @ sep @ join sep (y # ys)"

text \<open>
  The body of the \<open>try\<close> of \<open>store_email_metadata\<close>, up to and with the commit:
  statement 0 is the insert of the record, statements \<open>1..n\<close> the keyword rows and
  statement \<open>n + 1\<close> the commit.
\<close>

definition store_try ::
  "runtime \<Rightarrow> (nat \<Rightarrow> bool) \<Rightarrow> database \<Rightarrow> pystr \<Rightarrow> pystr \<Rightarrow> pystr \<Rightarrow> pystr \<Rightarrow> pystr list
     \<Rightarrow> pystr \<Rightarrow> db_error + database" where
  "store_try U fault db email_id subject sender date_received attachments archive_path =
     (case insert_archived_email (fault 0) db email_id subject sender date_received
             (join (lit '', '') attachments) archive_path of
        Inl e \<Rightarrow> Inl e
      | Inr (db1, rid) \<Rightarrow>
         (let kws = keywords_of U subject sender in
          case insert_keywords fault 1 db1 rid kws of
            Inl e \<Rightarrow> Inl e
          | Inr (db2, _) \<Rightarrow>
             if fault (Suc (length kws)) then Inl OperationalError else Inr db2))"

section \<open>The archiver\<close>

record config =
  archive_root :: pystr
  delete_after_archive :: bool

text \<open>
  The fields of an \<open>EmailArchiver\<close> object; \<open>db_conn\<close> is the committed content of the
  database behind the connection, and \<open>trace\<close> the effects so far.
\<close>

record archiver =
  config :: config
  db_conn :: database
  max_emails_per_session :: nat
  error_count :: nat
  max_errors :: nat
  trace :: "event list"

definition EmailArchiver_init :: "config \<Rightarrow> database \<Rightarrow> archiver" where
  "EmailArchiver_init cfg db =
     \<lparr> config = cfg, db_conn = db, max_emails_per_session = 100, error_count = 0,
       max_errors = 5, trace = [] \<rparr>"

definition emit :: "event list \<Rightarrow> archiver \<Rightarrow> archiver" where
  "emit evs st = st\<lparr> trace := trace st @ evs \<rparr>"

text \<open>
  A parsed message, as far as the archiver reads it: three headers and the parts in the
  order of \<open>email_message.walk()\<close>.
\<close>

record part =
  part_content_type :: pystr
  part_disposition :: "pystr option"
  part_is_multipart :: bool
  part_filename :: "pystr option"
  part_payload :: "nat list option"

record message =
  h_subject :: "pystr option"
  h_from :: "pystr option"
  h_date :: "pystr option"
  msg_walk :: "part list"

datatype fetch_result = FetchRaises | FetchNotOK | FetchOK message

datatype search_result = SearchRaises | SearchNotOK | SearchOK "pystr list"

text \<open>
  The environment of a run: what the mailbox session answers, the date, and which
  calls to the file system and to the database fail. \<open>db_fault E i k\<close>: statement \<open>k\<close>
  of the transaction for message \<open>i\<close> fails.
\<close>

record env =
  imap_connect :: bool
  imap_search :: search_result
  imap_fetch :: "pystr \<Rightarrow> fetch_result"
  imap_store_raises :: "pystr \<Rightarrow> bool"
  imap_close_raises :: bool
  today :: pystr
  makedirs_raises :: "pystr \<Rightarrow> bool"
  write_raises :: "pystr \<Rightarrow> bool"
  db_fault :: "pystr \<Rightarrow> nat \<Rightarrow> bool"

text \<open>
  \<open>store_email_metadata\<close> returns nothing and raises nothing: the handler rolls back
  (the committed database is as before) and logs.
\<close>

definition store_email_metadata ::
  "runtime \<Rightarrow> env \<Rightarrow> archiver \<Rightarrow> pystr \<Rightarrow> pystr \<Rightarrow> pystr \<Rightarrow> pystr \<Rightarrow> pystr list \<Rightarrow> pystr
     \<Rightarrow> archiver" where
  "store_email_metadata U E st email_id subject sender date_received attachments archive_path =
     (case store_try U (db_fault E email_id) (db_conn st) email_id subject sender
             date_received attachments archive_path of
        Inl e \<Rightarrow> emit [Log ERROR ''Database error''] st
      | Inr db' \<Rightarrow> st\<lparr> db_conn := db' \<rparr>)"

subsection \<open>One message\<close>

text \<open>\<open>os.path.join\<close> of \<open>posixpath\<close>.\<close>

definition path_join2 :: "pystr \<Rightarrow> pystr \<Rightarrow> pystr" where
  "path_join2 path b =
     (if (case b of [] \<Rightarrow> False | c # _ \<Rightarrow> c = of_char CHR ''/'') then b
      else if path = [] \<or> last path = of_char CHR ''/'' then path @ b
      else path @ [of_char CHR ''/''] @ b)"

definition path_join :: "pystr \<Rightarrow> pystr list \<Rightarrow> pystr" where
  "path_join a p = foldl path_join2 a p"

fun starts_with :: "'a list \<Rightarrow> 'a list \<Rightarrow> bool" where
  "starts_with xs [] = True"
| "starts_with [] (y # ys) = False"
| "starts_with (x # xs) (y # ys) = (x = y \<and> starts_with xs ys)"

text \<open>\<open>needle in text\<close> on strings.\<close>

fun contains :: "'a list \<Rightarrow> 'a list \<Rightarrow> bool" where
  "contains [] needle = (needle = [])"
| "contains (x # xs) needle = (starts_with (x # xs) needle \<or> contains xs needle)"

fun decimal :: "nat \<Rightarrow> pystr" where
  "decimal n = (if n < 10 then [48 + n] else decimal (n div 10) @ [48 + n mod 10])"

declare decimal.simps [simp del]

definition last_segment :: "pystr \<Rightarrow> pystr" where
  "last_segment s = rev (takeWhile (\<lambda>c. c \<noteq> of_char CHR ''/'') (rev s))"

text \<open>
  The body of the loop over the parts. \<open>attachments\<close> holds the sanitized names of the
  files written so far; a part whose file cannot be written is logged and skipped.
\<close>

definition save_part ::
  "runtime \<Rightarrow> env \<Rightarrow> pystr \<Rightarrow> pystr list \<times> event list \<Rightarrow> part \<Rightarrow> pystr list \<times> event list"
  where
  "save_part U E archive_dir acc p =
     (case acc of (attachments, evs) \<Rightarrow>
      if part_is_multipart p then (attachments, evs)
      else if \<not> contains
                (str_lower U (case part_disposition p of None \<Rightarrow> lit ''None'' | Some d \<Rightarrow> d))
                (lit ''attachment'')
      then (attachments, evs)
      else
        (let synthesized = lit ''attachment_'' @ decimal (length attachments) @ lit ''.'' @
                             last_segment (part_content_type p);
             filename0 = (case part_filename p of
                            None \<Rightarrow> synthesized
                          | Some f \<Rightarrow> if f = [] then synthesized else f);
             decoded = safe_decode_header U (Some filename0);
             safe_name = safe_filename U (fst decoded);
             filepath = path_join archive_dir [safe_name]
         in case part_payload p of
              None \<Rightarrow>
                (attachments, evs @ snd decoded @ [Log WARNING ''Empty attachment payload''])
            | Some b \<Rightarrow>
               if b = [] then
                 (attachments, evs @ snd decoded @ [Log WARNING ''Empty attachment payload''])
               else if write_raises E filepath then
                 (attachments, evs @ snd decoded @ [Log ERROR ''Failed to save''])
               else (attachments @ [safe_name], evs @ snd decoded @ [Wrote filepath b])))"

definition save_attachments ::
  "runtime \<Rightarrow> env \<Rightarrow> pystr \<Rightarrow> part list \<Rightarrow> pystr list \<times> event list \<Rightarrow> pystr list \<times> event list"
  where
  "save_attachments U E archive_dir parts acc = foldl (save_part U E archive_dir) acc parts"

text \<open>The handler of \<open>process_single_email\<close>: count the error, log, return \<open>False\<close>.\<close>

definition failed :: "archiver \<Rightarrow> bool \<times> archiver" where
  "failed st =
     (False, emit [Log ERROR ''Error processing email''] (st\<lparr> error_count := error_count st + 1 \<rparr>))"

definition archive_dir_of :: "runtime \<Rightarrow> env \<Rightarrow> archiver \<Rightarrow> pystr \<Rightarrow> pystr \<Rightarrow> pystr" where
  "archive_dir_of U E st sender email_id =
     path_join (archive_root (config st)) [today E, safe_sender U sender, take 10 email_id]"

definition process_single_email :: "runtime \<Rightarrow> env \<Rightarrow> archiver \<Rightarrow> pystr \<Rightarrow> bool \<times> archiver" where
  "process_single_email U E st email_id =
     (case imap_fetch E email_id of
        FetchRaises \<Rightarrow> failed (emit [Fetch email_id] st)
      | FetchNotOK \<Rightarrow> (False, emit [Fetch email_id, Log WARNING ''Fetch failed''] st)
      | FetchOK msg \<Rightarrow>
         (let subject = safe_decode_header U (h_subject msg);
              sender = safe_decode_header U (h_from msg);
              date_received = safe_decode_header U (h_date msg);
              st1 = emit ([Fetch email_id] @ snd subject @ snd sender @ snd date_received) st;
              archive_dir = archive_dir_of U E st (fst sender) email_id
          in if makedirs_raises E archive_dir then failed st1
             else
               (let saved = save_attachments U E archive_dir (msg_walk msg)
                              ([], [MakeDirs archive_dir]);
                    attachments = fst saved;
                    st2 = emit (snd saved) st1
                in if attachments \<noteq> [] then
                     (let st3 = store_email_metadata U E st2 email_id (fst subject) (fst sender)
                                  (fst date_received) attachments archive_dir
                      in if delete_after_archive (config st) then
                           (if imap_store_raises E email_id then failed (emit [Flag email_id] st3)
                            else (True, emit [Flag email_id] st3))
                         else (True, st3))
                   else (False, emit [Log WARNING ''No attachments found in email''] st2))))"

subsection \<open>One run\<close>

fun process_batch ::
  "runtime \<Rightarrow> env \<Rightarrow> archiver \<Rightarrow> nat \<Rightarrow> pystr list \<Rightarrow> archiver \<times> nat" where
  "process_batch U E st processed_count [] = (st, processed_count)"
| "process_batch U E st processed_count (email_id # rest) =
     (if error_count st \<ge> max_errors st then
        (emit [Log ERROR ''Reached maximum error limit, stopping''] st, processed_count)
      else
        (case process_single_email U E st email_id of
           (ok, st') \<Rightarrow>
             process_batch U E st' (if ok then processed_count + 1 else processed_count) rest))"

text \<open>
  The \<open>finally\<close> of \<open>process_emails\<close>: \<open>mail.close()\<close>, then \<open>mail.logout()\<close> unless
  \<open>close\<close> raised; whatever either raises is dropped.
\<close>

definition closing :: "env \<Rightarrow> archiver \<Rightarrow> archiver" where
  "closing E st = (if imap_close_raises E then emit [Close] st else emit [Close, Logout] st)"

definition process_emails :: "runtime \<Rightarrow> env \<Rightarrow> archiver \<Rightarrow> archiver" where
  "process_emails U E st =
     (if \<not> imap_connect E then
        emit [Log ERROR ''IMAP connection failed'',
              Log ERROR ''Cannot proceed without IMAP connection''] st
      else
        closing E
          (case imap_search E of
             SearchRaises \<Rightarrow> emit [Search, Log ERROR ''Fatal error''] st
           | SearchNotOK \<Rightarrow>
               emit [Search, Log WARNING ''Email search failed or no new emails''] st
           | SearchOK email_ids \<Rightarrow>
              (let batch = process_batch U E (emit [Search] st) 0
                             (take (max_emails_per_session st) email_ids)
               in emit [Summary (snd batch)] (fst batch))))"


definition fetched :: "event list \<Rightarrow> pystr list" where
  "fetched evs = concat (map (\<lambda>e. case e of Fetch i \<Rightarrow> [i] | _ \<Rightarrow> []) evs)"

text \<open>The files a trace has written.\<close>

definition written :: "event list \<Rightarrow> (pystr \<times> nat list) list" where
  "written evs = concat (map (\<lambda>e. case e of Wrote p b \<Rightarrow> [(p, b)] | _ \<Rightarrow> []) evs)"

section \<open>Search\<close>

text \<open>
  The \<open>LIKE\<close> operator of SQLite, as the archiver's connection has it (no \<open>ESCAPE\<close>,
  no pragma): \<open>%\<close> matches any run of characters, \<open>_\<close> any one character, and any
  other character matches itself, upper and lower case alike for the 26 letters of ASCII
  only.
\<close>

definition sqlite_lower :: "nat \<Rightarrow> nat" where
  "sqlite_lower c = (if 65 \<le> c \<and> c \<le> 90 then c + 32 else c)"

fun like :: "pystr \<Rightarrow> pystr \<Rightarrow> bool" where
  "like [] t = (t = [])"
| "like (p # ps) [] = (p = of_char CHR ''%'' \<and> like ps [])"
| "like (p # ps) (c # cs) =
     (if p = of_char CHR ''%'' then like ps (c # cs) \<or> like (p # ps) cs
      else (p = of_char CHR ''_'' \<or> sqlite_lower p = sqlite_lower c) \<and> like ps cs)"

record search_hit =
  hit_subject :: pystr
  hit_sender :: pystr
  hit_date :: pystr
  hit_attachments :: pystr
  hit_path :: pystr

text \<open>\<open>archived_emails e LEFT JOIN search_index s ON e.id = s.email_id\<close>.\<close>

definition left_join :: "database \<Rightarrow> (archived_email \<times> index_row option) list" where
  "left_join db =
     concat (map (\<lambda>e. let joined = filter (\<lambda>s. si_email_id s = ae_id e) (search_index db)
                       in if joined = [] then [(e, None)] else map (\<lambda>r. (e, Some r)) joined)
                 (archived_emails db))"

definition where_clause :: "pystr \<Rightarrow> archived_email \<times> index_row option \<Rightarrow> bool" where
  "where_clause pat row =
     (case row of (e, s) \<Rightarrow>
        like pat (ae_subject e) \<or> like pat (ae_sender e) \<or> like pat (ae_attachments e) \<or>
        like pat (ae_date_received e) \<or>
        (case s of None \<Rightarrow> False | Some r \<Rightarrow> like pat (si_keyword r)))"

definition select_columns :: "archived_email \<times> index_row option \<Rightarrow> search_hit" where
  "select_columns row =
     (case row of (e, s) \<Rightarrow>
        \<lparr> hit_subject = ae_subject e, hit_sender = ae_sender e, hit_date = ae_date_received e,
          hit_attachments = ae_attachments e, hit_path = ae_archive_path e \<rparr>)"

text \<open>
  The \<open>SELECT DISTINCT ... ORDER BY e.date_received DESC LIMIT 100\<close>. The columns are
  text with the default collation, which compares the encoded bytes and so orders
  strings as lists of code points. SQLite leaves the order of rows with equal dates
  open; the model takes one such order.
\<close>

definition select_query :: "database \<Rightarrow> pystr \<Rightarrow> search_hit list" where
  "select_query db pat =
     take 100 (rev (sort_key hit_date
       (remdups (map select_columns (filter (where_clause pat) (left_join db))))))"

definition str_strip :: "(nat \<Rightarrow> bool) \<Rightarrow> pystr \<Rightarrow> pystr" where
  "str_strip sp s = rev (dropWhile sp (rev (dropWhile sp s)))"

datatype py_exception = AttributeError

text \<open>
  \<open>search_emails\<close>. Its first argument is what the attribute \<open>db_conn\<close> of the object
  holds, \<open>None\<close> when the object has no such attribute. The third \<open>print\<close> before the
  \<open>try\<close> reads \<open>self.db_conn\<close>, so on an object without the attribute the test
  \<open>hasattr(self, 'db_conn')\<close> inside the \<open>try\<close> is never reached.
\<close>

definition search_emails ::
  "runtime \<Rightarrow> database option \<Rightarrow> pystr \<Rightarrow> (py_exception + search_hit list) \<times> event list" where
  "search_emails U conn query =
     (case conn of
        None \<Rightarrow> (Inl AttributeError, [])
      | Some db \<Rightarrow>
         (let q = str_lower U (str_strip (str_isspace U) query)
          in (Inr (select_query db ([of_char CHR ''%''] @ q @ [of_char CHR ''%''])), [])))"




section \<open>Concrete inputs\<close>

text \<open>
  A message with the subject \<open>alpha beta gamma\<close> from \<open>bob@example.org\<close> and one PDF
  attachment, in a mailbox where every call succeeds, met by a new archiver on an empty
  database.
\<close>

definition cfg0 :: config where
  "cfg0 = \<lparr> archive_root = lit ''./email_archive'', delete_after_archive = False \<rparr>"

definition st0 :: archiver where
  "st0 = EmailArchiver_init cfg0 empty_db"

definition part0 :: part where
  "part0 = \<lparr> part_content_type = lit ''application/pdf'',
     part_disposition = Some (lit ''attachment; filename=report final.pdf''),
     part_is_multipart = False, part_filename = Some (lit ''report final.pdf''),
     part_payload = Some [37, 80, 68, 70] \<rparr>"

definition msg0 :: message where
  "msg0 = \<lparr> h_subject = Some (lit ''alpha beta gamma''), h_from = Some (lit ''bob@example.org''),
     h_date = Some (lit ''Mon, 1 Jan 2024 10:00:00 +0000''), msg_walk = [part0] \<rparr>"

definition E0 :: env where
  "E0 = \<lparr> imap_connect = True, imap_search = SearchOK [lit ''1''],
     imap_fetch = (\<lambda>i. FetchOK msg0), imap_store_raises = (\<lambda>i. False),
     imap_close_raises = False, today = lit ''2024-01-01'', makedirs_raises = (\<lambda>p. False),
     write_raises = (\<lambda>p. False), db_fault = (\<lambda>i k. False) \<rparr>"

text \<open>The same mailbox when the second keyword insert of a transaction fails.\<close>

definition E_fault :: env where
  "E_fault = E0\<lparr> db_fault := (\<lambda>i k. k = 2) \<rparr>"

text \<open>The archiver after it has archived that message once.\<close>

definition st1 :: archiver where
  "st1 = snd (process_single_email ascii_runtime E0 st0 (lit ''1''))"

text \<open>
  A later message from another sender that the server numbers \<open>1\<close> again (sequence
  numbers are given anew once \<open>cleanup_mailbox\<close> has expunged the earlier ones).
\<close>

definition msg2 :: message where
  "msg2 = \<lparr> h_subject = Some (lit ''Hi''), h_from = Some (lit ''al@x.org''),
     h_date = Some (lit ''Tue, 2 Jan 2024 11:00:00 +0000''), msg_walk = [part0] \<rparr>"

definition E2 :: env where
  "E2 = E0\<lparr> imap_fetch := (\<lambda>i. FetchOK msg2), today := lit ''2024-01-02'' \<rparr>"


text \<open>
  A runtime whose \<open>decode_header\<close> answers as CPython does on the header
  \<open>Re: =?utf-8?q?Report?=\<close>: an unencoded chunk and an encoded one.
\<close>

definition mime_runtime :: runtime where
  "mime_runtime = ascii_runtime\<lparr> decode_header :=
     (\<lambda>h. if h = lit ''Re: =?utf-8?q?Report?=''
          then Decoded [(Bytes (lit ''Re: ''), None), (Bytes (lit ''Report''), Some (lit ''utf-8''))]
          else Decoded [(Str h, None)]) \<rparr>"

text \<open>A mailbox of seven messages in which every fetch raises.\<close>

definition ids5 :: "pystr list" where
  "ids5 = [lit ''1'', lit ''2'', lit ''3'', lit ''4'', lit ''5'']"

definition ids2 :: "pystr list" where
  "ids2 = [lit ''6'', lit ''7'']"

definition E_bad :: env where
  "E_bad = E0\<lparr> imap_search := SearchOK (ids5 @ ids2), imap_fetch := (\<lambda>i. FetchRaises) \<rparr>"


section \<open>The sanitizers\<close>

lemma in_set_take: "x \<in> set (take n xs) \<Longrightarrow> x \<in> set xs"
  by (rule in_set_takeD)

text \<open>
  C6: for every text and every character table, the sender-derived path segment has at
  most 50 characters, each alphanumeric or one of \<open>@ . - _\<close>, and the attachment file
  name has at most 100 characters, each alphanumeric or one of \<open>. - _\<close> (the substitute
  \<open>_\<close> is in both sets). Both are total functions with no error result.
\<close>

theorem sanitizer_bounded_and_safe:
  "length (safe_sender U sender) \<le> 50 \<and>
   (\<forall>c \<in> set (safe_sender U sender). str_isalnum U c \<or> c \<in> set (lit ''@.-_'')) \<and>
   length (safe_filename U filename) \<le> 100 \<and>
   (\<forall>c \<in> set (safe_filename U filename). str_isalnum U c \<or> c \<in> set (lit ''.-_''))"
proof (intro conjI ballI)
  show "length (safe_sender U sender) \<le> 50"
    by (simp add: safe_sender_def)
  show "length (safe_filename U filename) \<le> 100"
    by (simp add: safe_filename_def)
next
  fix c assume "c \<in> set (safe_sender U sender)"
  then have "c \<in> set (map (\<lambda>c. if str_isalnum U c \<or> c \<in> set (lit ''@.-_'') then c
                        else of_char CHR ''_'') (takeWhile (\<lambda>c. c \<noteq> of_char CHR ''@'') sender))"
    unfolding safe_sender_def by (rule in_set_take)
  then show "str_isalnum U c \<or> c \<in> set (lit ''@.-_'')"
    by (auto simp: lit_def split: if_splits)
next
  fix c assume "c \<in> set (safe_filename U filename)"
  then have "c \<in> set (map (\<lambda>c. if str_isalnum U c \<or> c \<in> set (lit ''.-_'') then c
                         else of_char CHR ''_'') filename)"
    unfolding safe_filename_def by (rule in_set_take)
  then show "str_isalnum U c \<or> c \<in> set (lit ''.-_'')"
    by (auto simp: lit_def split: if_splits)
qed

theorem sanitizer_bounded_and_safe_witness:
  "safe_sender ascii_runtime (lit ''J. Doe <jd@x.org>'') = lit ''J._Doe__jd'' \<and>
   safe_filename ascii_runtime (lit ''report final.pdf'') = lit ''report_final.pdf'' \<and>
   length (safe_sender ascii_runtime (lit ''J. Doe <jd@x.org>'')) \<le> 50 \<and>
   length (safe_filename ascii_runtime (lit ''report final.pdf'')) \<le> 100"
  using sanitizer_bounded_and_safe [of ascii_runtime "lit ''J. Doe <jd@x.org>''"
      "lit ''report final.pdf''"]
  by (simp add: safe_sender_def safe_filename_def lit_def ascii_runtime_def ascii_isalnum_def)

section \<open>Traces and frames\<close>

lemma fetched_append: "fetched (xs @ ys) = fetched xs @ fetched ys"
  by (simp add: fetched_def)

lemma fetched_simps:
  "fetched [] = []"
  "fetched (e # xs) = (case e of Fetch i \<Rightarrow> [i] | _ \<Rightarrow> []) @ fetched xs"
  by (simp_all add: fetched_def)

lemma written_simps:
  "written [] = []"
  "written (e # xs) = (case e of Wrote p b \<Rightarrow> [(p, b)] | _ \<Rightarrow> []) @ written xs"
  by (simp_all add: written_def)

lemma written_append: "written (xs @ ys) = written xs @ written ys"
  by (simp add: written_def)

lemma safe_decode_header_logs:
  "snd (safe_decode_header U h) = [] \<or> snd (safe_decode_header U h) = [Log WARNING ''Header decode failed'']"
  by (simp add: safe_decode_header_def split: option.splits decode_result.splits list.splits chunk_text.splits prod.splits)

lemma fetched_safe_decode_header: "fetched (snd (safe_decode_header U h)) = []"
  using safe_decode_header_logs [of U h] by (auto simp: fetched_def)

lemma written_safe_decode_header: "written (snd (safe_decode_header U h)) = []"
  using safe_decode_header_logs [of U h] by (auto simp: written_def)

lemma store_frame:
  "config (store_email_metadata U E st i s f d a p) = config st"
  "error_count (store_email_metadata U E st i s f d a p) = error_count st"
  "max_errors (store_email_metadata U E st i s f d a p) = max_errors st"
  "max_emails_per_session (store_email_metadata U E st i s f d a p) = max_emails_per_session st"
  by (simp_all add: store_email_metadata_def emit_def split: sum.splits)

lemma store_trace:
  "trace (store_email_metadata U E st i s f d a p) = trace st \<or>
   trace (store_email_metadata U E st i s f d a p) = trace st @ [Log ERROR ''Database error'']"
  by (simp add: store_email_metadata_def emit_def split: sum.splits)

lemma fetched_store:
  "fetched (trace (store_email_metadata U E st i s f d a p)) = fetched (trace st)"
  using store_trace [of U E st i s f d a p] by (auto simp: fetched_def)

lemma written_store:
  "written (trace (store_email_metadata U E st i s f d a p)) = written (trace st)"
  using store_trace [of U E st i s f d a p] by (auto simp: written_def)

text \<open>One part: the events grow, no Fetch among the new ones, and a name is added
  exactly when a file is written.\<close>

lemma save_part_step:
  "\<exists>new names. save_part U E dir (atts, evs) p = (atts @ names, evs @ new) \<and>
      fetched new = [] \<and> length (written new) = length names"
proof -
  let ?d = "safe_decode_header U (Some (case part_filename p of
                            None \<Rightarrow> lit ''attachment_'' @ decimal (length atts) @ lit ''.'' @
                             last_segment (part_content_type p)
                          | Some f \<Rightarrow> if f = [] then lit ''attachment_'' @ decimal (length atts) @ lit ''.'' @
                             last_segment (part_content_type p) else f))"
  have f: "fetched (snd ?d) = []" by (rule fetched_safe_decode_header)
  have w: "written (snd ?d) = []" by (rule written_safe_decode_header)
  show ?thesis
    unfolding save_part_def Let_def prod.case
    apply (cases "part_is_multipart p")
     apply (simp add: fetched_def written_def)
    apply (cases "contains
                (str_lower U (case part_disposition p of None \<Rightarrow> lit ''None'' | Some d \<Rightarrow> d))
                (lit ''attachment'')")
     prefer 2 apply (simp add: fetched_def written_def)
    apply (cases "part_payload p")
    using f w apply (simp_all add: fetched_append written_append)
      apply (simp_all add: fetched_def written_def)
    done
qed

lemma save_attachments_steps:
  "\<exists>new names. save_attachments U E dir ps (atts, evs) = (atts @ names, evs @ new) \<and>
      fetched new = [] \<and> length (written new) = length names"
proof (induction ps arbitrary: atts evs)
  case Nil
  show ?case by (simp add: save_attachments_def fetched_def written_def)
next
  case (Cons p ps)
  obtain n1 e1 where s1: "save_part U E dir (atts, evs) p = (atts @ n1, evs @ e1)"
    and f1: "fetched e1 = []" and w1: "length (written e1) = length n1"
    using save_part_step [of U E dir atts evs p] by blast
  obtain n2 e2 where s2: "save_attachments U E dir ps (atts @ n1, evs @ e1) = ((atts @ n1) @ n2, (evs @ e1) @ e2)"
    and f2: "fetched e2 = []" and w2: "length (written e2) = length n2"
    using Cons.IH [of "atts @ n1" "evs @ e1"] by blast
  have "save_attachments U E dir (p # ps) (atts, evs) = (atts @ (n1 @ n2), evs @ (e1 @ e2))"
    using s1 s2 by (simp add: save_attachments_def)
  moreover have "fetched (e1 @ e2) = []" using f1 f2 by (simp add: fetched_append)
  moreover have "length (written (e1 @ e2)) = length (n1 @ n2)" using w1 w2 by (simp add: written_append)
  ultimately show ?case by blast
qed

lemma save_attachments_start:
  "\<exists>new names. save_attachments U E dir ps ([], [MakeDirs dir]) = (names, MakeDirs dir # new) \<and>
      fetched new = [] \<and> length (written new) = length names"
  using save_attachments_steps [of U E dir ps "[]" "[MakeDirs dir]"] by simp

lemma failed_simps:
  "fst (failed st) = False"
  "config (snd (failed st)) = config st"
  "db_conn (snd (failed st)) = db_conn st"
  "max_errors (snd (failed st)) = max_errors st"
  "max_emails_per_session (snd (failed st)) = max_emails_per_session st"
  "error_count (snd (failed st)) = Suc (error_count st)"
  "trace (snd (failed st)) = trace st @ [Log ERROR ''Error processing email'']"
  by (simp_all add: failed_def emit_def)

lemma emit_simps:
  "config (emit evs st) = config st"
  "db_conn (emit evs st) = db_conn st"
  "max_errors (emit evs st) = max_errors st"
  "max_emails_per_session (emit evs st) = max_emails_per_session st"
  "error_count (emit evs st) = error_count st"
  "trace (emit evs st) = trace st @ evs"
  by (simp_all add: emit_def)

lemma pse_frame:
  "config (snd (process_single_email U E st i)) = config st"
  "max_errors (snd (process_single_email U E st i)) = max_errors st"
  "max_emails_per_session (snd (process_single_email U E st i)) = max_emails_per_session st"
  by (simp_all add: process_single_email_def Let_def failed_simps emit_simps store_frame
        split: fetch_result.splits)


lemma pse_fetched:
  "fetched (trace (snd (process_single_email U E st i))) = fetched (trace st) @ [i]"
proof (cases "imap_fetch E i")
  case FetchRaises
  then show ?thesis
    by (simp add: process_single_email_def failed_simps emit_simps fetched_append) (simp add: fetched_def)
next
  case FetchNotOK
  then show ?thesis
    by (simp add: process_single_email_def emit_simps fetched_append) (simp add: fetched_def)
next
  case (FetchOK msg)
  let ?dir = "archive_dir_of U E st (fst (safe_decode_header U (h_from msg))) i"
  obtain new names where sv: "save_attachments U E ?dir (msg_walk msg) ([], [MakeDirs ?dir]) = (names, MakeDirs ?dir # new)"
    and fn: "fetched new = []"
    using save_attachments_start [of U E ?dir "msg_walk msg"] by blast
  show ?thesis
    using FetchOK sv fn
    by (simp add: process_single_email_def Let_def failed_simps emit_simps fetched_append
          fetched_store fetched_safe_decode_header fetched_simps)
qed

lemma store_trace_grows:
  "\<exists>evs. trace (store_email_metadata U E st i s f d a p) = trace st @ evs"
  by (simp add: store_email_metadata_def emit_def split: sum.splits)

lemma pse_trace_grows:
  "\<exists>evs. trace (snd (process_single_email U E st i)) = trace st @ evs"
proof (cases "imap_fetch E i")
  case FetchRaises
  then show ?thesis by (simp add: process_single_email_def failed_simps emit_simps)
next
  case FetchNotOK
  then show ?thesis by (simp add: process_single_email_def emit_simps)
next
  case (FetchOK msg)
  let ?dir = "archive_dir_of U E st (fst (safe_decode_header U (h_from msg))) i"
  let ?st1 = "emit ([Fetch i] @ snd (safe_decode_header U (h_subject msg)) @
                 snd (safe_decode_header U (h_from msg)) @ snd (safe_decode_header U (h_date msg))) st"
  let ?saved = "save_attachments U E ?dir (msg_walk msg) ([], [MakeDirs ?dir])"
  let ?st2 = "emit (snd ?saved) ?st1"
  obtain ev where ev: "trace (store_email_metadata U E ?st2 i (fst (safe_decode_header U (h_subject msg)))
      (fst (safe_decode_header U (h_from msg))) (fst (safe_decode_header U (h_date msg)))
      (fst ?saved) ?dir) = trace ?st2 @ ev"
    using store_trace_grows by blast
  show ?thesis
    using FetchOK ev
    by (simp add: process_single_email_def Let_def failed_simps emit_simps)
qed

section \<open>The batch loop and the run\<close>

lemma process_batch_Cons:
  "process_batch U E st n (i # rest) =
     (if max_errors st \<le> error_count st
      then (emit [Log ERROR ''Reached maximum error limit, stopping''] st, n)
      else process_batch U E (snd (process_single_email U E st i))
             (if fst (process_single_email U E st i) then n + 1 else n) rest)"
  by (simp split: prod.splits)


lemma batch_stopped:
  "max_errors st \<le> error_count st \<Longrightarrow>
   fetched (trace (fst (process_batch U E st n ids))) = fetched (trace st) \<and>
   error_count (fst (process_batch U E st n ids)) = error_count st \<and>
   snd (process_batch U E st n ids) = n"
  by (cases ids) (simp_all add: process_batch_Cons emit_simps fetched_append fetched_simps del: process_batch.simps(2))

lemma batch_prefix_stop:
  "max_errors st \<le> error_count (fst (process_batch U E st n pre)) \<Longrightarrow>
   fetched (trace (fst (process_batch U E st n (pre @ post)))) =
   fetched (trace (fst (process_batch U E st n pre)))"
proof (induction pre arbitrary: st n)
  case Nil
  then show ?case using batch_stopped [of st U E n post] by simp
next
  case (Cons i rest)
  show ?case
  proof (cases "max_errors st \<le> error_count st")
    case True
    then show ?thesis by (simp add: process_batch_Cons del: process_batch.simps(2))
  next
    case False
    let ?r = "process_single_email U E st i"
    have "max_errors (snd ?r) \<le> error_count (fst (process_batch U E (snd ?r) (if fst ?r then n + 1 else n) rest))"
      using Cons.prems False by (simp add: process_batch_Cons pse_frame del: process_batch.simps(2))
    from Cons.IH [OF this] False show ?thesis
      by (simp add: process_batch_Cons del: process_batch.simps(2))
  qed
qed

lemma batch_fetched_prefix:
  "\<exists>k. k \<le> length ids \<and>
     fetched (trace (fst (process_batch U E st n ids))) = fetched (trace st) @ take k ids"
proof (induction ids arbitrary: st n)
  case Nil
  show ?case by simp
next
  case (Cons i rest)
  show ?case
  proof (cases "max_errors st \<le> error_count st")
    case True
    have "fetched (trace (fst (process_batch U E st n (i # rest)))) = fetched (trace st) @ take 0 (i # rest)"
      using True by (simp add: process_batch_Cons emit_simps fetched_append fetched_simps del: process_batch.simps(2))
    then show ?thesis by blast
  next
    case False
    let ?r = "process_single_email U E st i"
    obtain k where k: "k \<le> length rest"
      "fetched (trace (fst (process_batch U E (snd ?r) (if fst ?r then n + 1 else n) rest))) =
         fetched (trace (snd ?r)) @ take k rest"
      using Cons.IH [of "snd ?r" "if fst ?r then n + 1 else n"] by blast
    have "fetched (trace (fst (process_batch U E st n (i # rest)))) = fetched (trace st) @ take (Suc k) (i # rest)"
      using False k by (simp add: process_batch_Cons pse_fetched del: process_batch.simps(2))
    moreover have "Suc k \<le> length (i # rest)" using k by simp
    ultimately show ?thesis by blast
  qed
qed

lemma closing_simps:
  "config (closing E st) = config st"
  "db_conn (closing E st) = db_conn st"
  "max_errors (closing E st) = max_errors st"
  "max_emails_per_session (closing E st) = max_emails_per_session st"
  "error_count (closing E st) = error_count st"
  "trace (closing E st) = trace st @ (if imap_close_raises E then [Close] else [Close, Logout])"
  by (simp_all add: closing_def emit_simps)






lemma batch_trace_grows:
  "\<exists>evs. trace (fst (process_batch U E st n ids)) = trace st @ evs"
proof (induction ids arbitrary: st n)
  case Nil
  show ?case by simp
next
  case (Cons i rest)
  show ?case
  proof (cases "max_errors st \<le> error_count st")
    case True
    then show ?thesis by (simp add: process_batch_Cons emit_simps del: process_batch.simps(2))
  next
    case False
    let ?r = "process_single_email U E st i"
    obtain e1 where e1: "trace (snd ?r) = trace st @ e1"
      using pse_trace_grows [of U E st i] by blast
    obtain e2 where "trace (fst (process_batch U E (snd ?r) (if fst ?r then n + 1 else n) rest)) = trace (snd ?r) @ e2"
      using Cons.IH [of "snd ?r" "if fst ?r then n + 1 else n"] by blast
    with e1 False show ?thesis by (simp add: process_batch_Cons del: process_batch.simps(2))
  qed
qed

lemma pe_closes:
  assumes "imap_connect E"
  shows "\<exists>evs. trace (process_emails U E st) =
          trace st @ Search # evs @ (if imap_close_raises E then [Close] else [Close, Logout])"
proof (cases "imap_search E")
  case (SearchOK ids)
  obtain evs where "trace (fst (process_batch U E (emit [Search] st) 0 (take (max_emails_per_session st) ids))) = trace (emit [Search] st) @ evs"
    using batch_trace_grows by blast
  then have "trace (process_emails U E st) = trace st @ Search # (evs @ [Summary (snd (process_batch U E (emit [Search] st) 0 (take (max_emails_per_session st) ids)))]) @ (if imap_close_raises E then [Close] else [Close, Logout])"
    using assms SearchOK by (simp add: process_emails_def closing_simps emit_simps Let_def)
  then show ?thesis by blast
next
  case SearchRaises
  then have "trace (process_emails U E st) = trace st @ Search # [Log ERROR ''Fatal error''] @ (if imap_close_raises E then [Close] else [Close, Logout])"
    using assms by (simp add: process_emails_def closing_simps emit_simps)
  then show ?thesis by blast
next
  case SearchNotOK
  then have "trace (process_emails U E st) = trace st @ Search # [Log WARNING ''Email search failed or no new emails''] @ (if imap_close_raises E then [Close] else [Close, Logout])"
    using assms by (simp add: process_emails_def closing_simps emit_simps)
  then show ?thesis by blast
qed


section \<open>The insert transaction\<close>

lemma insert_search_index_Inr:
  assumes "insert_search_index fault db r kw = Inr (db1, r1)"
  shows "archived_emails db1 = archived_emails db \<and>
         search_index db1 = search_index db @ [\<lparr> si_id = r1, si_email_id = r, si_keyword = kw \<rparr>]"
proof (cases fault)
  case True
  with assms show ?thesis by (simp add: insert_search_index_def)
next
  case False
  with assms have "db1 = db\<lparr> search_index := search_index db @
        [\<lparr> si_id = next_rowid (seq_search_index db) (map si_id (search_index db)),
           si_email_id = r, si_keyword = kw \<rparr>],
        seq_search_index := next_rowid (seq_search_index db) (map si_id (search_index db)) \<rparr>"
    and "r1 = next_rowid (seq_search_index db) (map si_id (search_index db))"
    by (auto simp add: insert_search_index_def Let_def)
  then show ?thesis by simp
qed

lemma insert_keywords_rows:
  "insert_keywords f k db r kws = Inr (db', r') \<Longrightarrow>
     archived_emails db' = archived_emails db \<and>
     (\<exists>krows. search_index db' = search_index db @ krows \<and> map si_keyword krows = kws)"
proof (induction kws arbitrary: k db r)
  case Nil
  then show ?case by simp
next
  case (Cons kw kws)
  show ?case
  proof (cases "insert_search_index (f k) db r kw")
    case (Inl e)
    with Cons.prems show ?thesis by simp
  next
    case (Inr pr)
    then obtain db1 r1 where one: "insert_search_index (f k) db r kw = Inr (db1, r1)"
      by (cases pr) simp
    from Cons.prems one have rest: "insert_keywords f (Suc k) db1 r1 kws = Inr (db', r')"
      by simp
    note db1 = insert_search_index_Inr [OF one]
    from Cons.IH [OF rest] obtain krows where kr:
      "archived_emails db' = archived_emails db1"
      "search_index db' = search_index db1 @ krows" "map si_keyword krows = kws"
      by (elim conjE exE)
    let ?row = "\<lparr> si_id = r1, si_email_id = r, si_keyword = kw \<rparr>"
    show ?thesis
    proof (intro conjI exI)
      show "archived_emails db' = archived_emails db"
        using db1 kr(1) by simp
      show "search_index db' = search_index db @ (?row # krows)"
        using db1 kr(2) by simp
      show "map si_keyword (?row # krows) = kw # kws"
        using kr(3) by simp
    qed
  qed
qed

lemma insert_keywords_ok:
  assumes "\<And>j. \<not> f j"
  shows "\<exists>db' r'. insert_keywords f k db r kws = Inr (db', r')"
proof (induction kws arbitrary: k db r)
  case Nil
  show ?case by simp
next
  case (Cons kw kws)
  have "\<not> f k" by (rule assms)
  then obtain db1 r1 where "insert_search_index (f k) db r kw = Inr (db1, r1)"
    by (simp add: insert_search_index_def Let_def)
  with Cons.IH [of "Suc k" db1 r1] show ?case by simp
qed

lemma insert_archived_email_Inr:
  assumes "insert_archived_email fault db eid s sn d a p = Inr (db1, rid)"
  shows "\<not> has_record db eid \<and> search_index db1 = search_index db \<and>
         archived_emails db1 = archived_emails db @
           [\<lparr> ae_id = rid, ae_email_id = eid, ae_subject = s, ae_sender = sn,
              ae_date_received = d, ae_attachments = a, ae_archive_path = p \<rparr>]"
proof (cases "fault \<or> has_record db eid")
  case True
  with assms show ?thesis by (cases fault) (simp_all add: insert_archived_email_def)
next
  case False
  let ?rid = "next_rowid (seq_archived_emails db) (map ae_id (archived_emails db))"
  from assms False have "db1 = db\<lparr> archived_emails := archived_emails db @
        [\<lparr> ae_id = ?rid, ae_email_id = eid, ae_subject = s, ae_sender = sn,
              ae_date_received = d, ae_attachments = a, ae_archive_path = p \<rparr>],
        seq_archived_emails := ?rid \<rparr>"
    and "rid = ?rid"
    by (auto simp add: insert_archived_email_def Let_def)
  with False show ?thesis by simp
qed

lemma store_try_committed:
  assumes "store_try U f db eid s sn d atts p = Inr db'"
  shows "\<exists>row krows. archived_emails db' = archived_emails db @ [row] \<and>
           ae_email_id row = eid \<and> ae_subject row = s \<and> ae_sender row = sn \<and>
           ae_date_received row = d \<and> ae_attachments row = join (lit '', '') atts \<and>
           ae_archive_path row = p \<and>
           search_index db' = search_index db @ krows \<and>
           map si_keyword krows = keywords_of U s sn"
proof (cases "insert_archived_email (f 0) db eid s sn d (join (lit '', '') atts) p")
  case (Inl e)
  with assms show ?thesis by (simp add: store_try_def)
next
  case (Inr pr)
  then obtain db1 rid where
    ins: "insert_archived_email (f 0) db eid s sn d (join (lit '', '') atts) p = Inr (db1, rid)"
    by (cases pr) simp
  show ?thesis
  proof (cases "insert_keywords f 1 db1 rid (keywords_of U s sn)")
    case (Inl e)
    with assms ins show ?thesis by (simp add: store_try_def Let_def)
  next
    case (Inr pr2)
    then obtain db2 r2 where
      kws: "insert_keywords f 1 db1 rid (keywords_of U s sn) = Inr (db2, r2)"
      by (cases pr2) simp
    from assms ins kws have db': "db' = db2"
      by (simp add: store_try_def Let_def split: if_splits)
    let ?row = "\<lparr> ae_id = rid, ae_email_id = eid, ae_subject = s, ae_sender = sn,
                 ae_date_received = d, ae_attachments = join (lit '', '') atts,
                 ae_archive_path = p \<rparr>"
    note db1 = insert_archived_email_Inr [OF ins]
    from insert_keywords_rows [OF kws] obtain krows where kr:
      "archived_emails db2 = archived_emails db1" "search_index db2 = search_index db1 @ krows"
      "map si_keyword krows = keywords_of U s sn"
      by (elim conjE exE)
    show ?thesis
    proof (intro exI conjI)
      show "archived_emails db' = archived_emails db @ [?row]"
        using db' db1 kr(1) by simp
      show "search_index db' = search_index db @ krows"
        using db' db1 kr(2) by simp
      show "map si_keyword krows = keywords_of U s sn" by (rule kr(3))
    qed simp_all
  qed
qed

lemma store_try_duplicate:
  "has_record db eid \<Longrightarrow> \<exists>e. store_try U f db eid s sn d atts p = Inl e"
  by (simp add: store_try_def insert_archived_email_def)

lemma store_try_Inr_fresh:
  assumes "store_try U f db eid s sn d atts p = Inr db'"
  shows "\<not> has_record db eid"
proof
  assume "has_record db eid"
  from store_try_duplicate [OF this, of U f s sn d atts p] assms show False by simp
qed

lemma store_try_ok:
  assumes "\<not> has_record db eid" and "\<And>j. \<not> f j"
  shows "\<exists>db'. store_try U f db eid s sn d atts p = Inr db'"
proof -
  have f0: "\<not> f 0" and fl: "\<not> f (Suc (length (keywords_of U s sn)))"
    by (rule assms(2))+
  obtain db1 rid where
    ins: "insert_archived_email (f 0) db eid s sn d (join (lit '', '') atts) p = Inr (db1, rid)"
    using assms(1) f0 by (simp add: insert_archived_email_def Let_def)
  obtain db2 r' where "insert_keywords f 1 db1 rid (keywords_of U s sn) = Inr (db2, r')"
    using insert_keywords_ok [of f 1 db1 rid "keywords_of U s sn", OF assms(2)] by (elim exE)
  with ins fl show ?thesis by (simp add: store_try_def Let_def)
qed

lemma write_raises_db_fault: "write_raises (E\<lparr>db_fault := f\<rparr>) = write_raises E"
  by simp

lemma save_part_db_fault_app:
  "save_part U (E\<lparr>db_fault := f\<rparr>) dir acc p = save_part U E dir acc p"
  unfolding save_part_def write_raises_db_fault ..

lemma save_part_db_fault: "save_part U (E\<lparr>db_fault := f\<rparr>) dir = save_part U E dir"
  by (rule ext, rule ext) (rule save_part_db_fault_app)

lemma save_attachments_db_fault:
  "save_attachments U (E\<lparr>db_fault := f\<rparr>) dir ps acc = save_attachments U E dir ps acc"
  by (simp add: save_attachments_def save_part_db_fault)

lemma pse_outcome_independent_of_store:
  "fst (process_single_email U E st i) =
     fst (process_single_email U (E\<lparr>db_fault := f\<rparr>) (st\<lparr>db_conn := db\<rparr>) i) \<and>
   error_count (snd (process_single_email U E st i)) =
     error_count (snd (process_single_email U (E\<lparr>db_fault := f\<rparr>) (st\<lparr>db_conn := db\<rparr>) i))"
  by (simp add: process_single_email_def Let_def failed_simps emit_simps store_frame
        archive_dir_of_def save_attachments_db_fault split: fetch_result.splits)


lemma store_db_cases:
  "db_conn (store_email_metadata U E st i s sn d a p) = db_conn st \<or>
   (\<not> has_record (db_conn st) i \<and>
    has_record (db_conn (store_email_metadata U E st i s sn d a p)) i \<and>
    length (archived_emails (db_conn (store_email_metadata U E st i s sn d a p))) =
      Suc (length (archived_emails (db_conn st))))"
proof (cases "store_try U (db_fault E i) (db_conn st) i s sn d a p")
  case (Inl e)
  then show ?thesis by (simp add: store_email_metadata_def emit_def)
next
  case (Inr db')
  from store_try_committed [OF Inr] obtain row where
    row: "archived_emails db' = archived_emails (db_conn st) @ [row]" "ae_email_id row = i"
    by (elim exE conjE)
  have "\<not> has_record (db_conn st) i" by (rule store_try_Inr_fresh [OF Inr])
  moreover have "has_record db' i" using row by (simp add: has_record_def)
  moreover have "length (archived_emails db') = Suc (length (archived_emails (db_conn st)))"
    using row by simp
  ultimately show ?thesis using Inr by (simp add: store_email_metadata_def)
qed

lemma store_db_ok:
  assumes "\<not> has_record (db_conn st) i" and "\<And>k. \<not> db_fault E i k"
  shows "has_record (db_conn (store_email_metadata U E st i s sn d a p)) i \<and>
         length (archived_emails (db_conn (store_email_metadata U E st i s sn d a p))) =
           Suc (length (archived_emails (db_conn st)))"
proof -
  obtain db' where ok: "store_try U (db_fault E i) (db_conn st) i s sn d a p = Inr db'"
    using store_try_ok [of "db_conn st" i "db_fault E i" U s sn d a p, OF assms(1) assms(2)]
    by (elim exE)
  then have "db_conn (store_email_metadata U E st i s sn d a p) \<noteq> db_conn st \<or> True" by simp
  from store_try_committed [OF ok] obtain row where
    row: "archived_emails db' = archived_emails (db_conn st) @ [row]" "ae_email_id row = i"
    by (elim exE conjE)
  have "has_record db' i" using row by (simp add: has_record_def)
  moreover have "length (archived_emails db') = Suc (length (archived_emails (db_conn st)))"
    using row by simp
  ultimately show ?thesis using ok by (simp add: store_email_metadata_def)
qed

text \<open>What one call writes and what it does to the store.\<close>

lemma pse_store_and_files:
  "(db_conn (snd (process_single_email U E st i)) = db_conn st \<or>
      (written (trace (snd (process_single_email U E st i))) \<noteq> written (trace st) \<and>
       \<not> has_record (db_conn st) i \<and>
       has_record (db_conn (snd (process_single_email U E st i))) i \<and>
       length (archived_emails (db_conn (snd (process_single_email U E st i)))) =
         Suc (length (archived_emails (db_conn st))))) \<and>
   (written (trace (snd (process_single_email U E st i))) \<noteq> written (trace st) \<and>
    \<not> has_record (db_conn st) i \<and> (\<forall>k. \<not> db_fault E i k) \<longrightarrow>
      has_record (db_conn (snd (process_single_email U E st i))) i \<and>
      length (archived_emails (db_conn (snd (process_single_email U E st i)))) =
        Suc (length (archived_emails (db_conn st))))"
proof (cases "imap_fetch E i")
  case FetchRaises
  then show ?thesis
    by (simp add: process_single_email_def failed_simps emit_simps written_append written_simps)
next
  case FetchNotOK
  then show ?thesis
    by (simp add: process_single_email_def emit_simps written_append written_simps)
next
  case (FetchOK msg)
  let ?sub = "safe_decode_header U (h_subject msg)"
  let ?snd = "safe_decode_header U (h_from msg)"
  let ?dat = "safe_decode_header U (h_date msg)"
  let ?dir = "archive_dir_of U E st (fst ?snd) i"
  let ?st1 = "emit ([Fetch i] @ snd ?sub @ snd ?snd @ snd ?dat) st"
  have w1: "written (trace ?st1) = written (trace st)"
    by (simp add: emit_simps written_append written_simps written_safe_decode_header)
  show ?thesis
  proof (cases "makedirs_raises E ?dir")
    case True
    with FetchOK w1 show ?thesis
      by (simp add: process_single_email_def Let_def failed_simps emit_simps written_append
            written_simps written_safe_decode_header)
  next
    case False
    obtain new names where
      sv: "save_attachments U E ?dir (msg_walk msg) ([], [MakeDirs ?dir]) = (names, MakeDirs ?dir # new)"
      and wn: "length (written new) = length names"
      using save_attachments_start [of U E ?dir "msg_walk msg"] by (elim exE conjE)
    let ?st2 = "emit (MakeDirs ?dir # new) ?st1"
    have w2: "written (trace ?st2) = written (trace st) @ written new"
      using w1 by (simp add: emit_simps written_append written_simps written_safe_decode_header)
    show ?thesis
    proof (cases "names = []")
      case True
      with wn have "written new = []" by simp
      with FetchOK False sv True w2 show ?thesis
        by (simp add: process_single_email_def Let_def emit_simps written_append written_simps
              written_safe_decode_header)
    next
      case nonempty: False
      with wn have wnew: "written new \<noteq> []" by auto
      let ?st3 = "store_email_metadata U E ?st2 i (fst ?sub) (fst ?snd) (fst ?dat) names ?dir"
      have w3: "written (trace ?st3) = written (trace st) @ written new"
        using w2 by (simp add: written_store)
      have db2: "db_conn ?st2 = db_conn st" by (simp add: emit_simps)
      have fin: "db_conn (snd (process_single_email U E st i)) = db_conn ?st3 \<and>
                 written (trace (snd (process_single_email U E st i))) = written (trace ?st3)"
        using FetchOK False sv nonempty
        by (simp add: process_single_email_def Let_def failed_simps emit_simps written_append
              written_simps)
      have changed: "written (trace (snd (process_single_email U E st i))) \<noteq> written (trace st)"
        using fin w3 wnew by simp
      have c1: "db_conn ?st3 = db_conn st \<or>
         (\<not> has_record (db_conn st) i \<and> has_record (db_conn ?st3) i \<and>
          length (archived_emails (db_conn ?st3)) = Suc (length (archived_emails (db_conn st))))"
        using store_db_cases [of U E ?st2 i "fst ?sub" "fst ?snd" "fst ?dat" names ?dir] db2
        by simp
      have c2: "\<not> has_record (db_conn st) i \<and> (\<forall>k. \<not> db_fault E i k) \<longrightarrow>
          has_record (db_conn ?st3) i \<and>
          length (archived_emails (db_conn ?st3)) = Suc (length (archived_emails (db_conn st)))"
      proof
        assume a: "\<not> has_record (db_conn st) i \<and> (\<forall>k. \<not> db_fault E i k)"
        then have "\<not> has_record (db_conn ?st2) i" using db2 by simp
        moreover from a have "\<And>k. \<not> db_fault E i k" by simp
        ultimately show "has_record (db_conn ?st3) i \<and>
          length (archived_emails (db_conn ?st3)) = Suc (length (archived_emails (db_conn st)))"
          using store_db_ok [of ?st2 i E U "fst ?sub" "fst ?snd" "fst ?dat" names ?dir] db2
          by simp
      qed
      from fin changed c1 c2 show ?thesis by simp
    qed
  qed
qed

lemma store_unchanged_logs:
  assumes "db_conn (store_email_metadata U E st i s sn d a p) = db_conn st"
  shows "trace (store_email_metadata U E st i s sn d a p) = trace st @ [Log ERROR ''Database error'']"
proof (cases "store_try U (db_fault E i) (db_conn st) i s sn d a p")
  case (Inl e)
  then show ?thesis by (simp add: store_email_metadata_def emit_def)
next
  case (Inr db')
  from store_try_committed [OF Inr] obtain row where
    "archived_emails db' = archived_emails (db_conn st) @ [row]"
    by (elim exE conjE)
  then have "length (archived_emails db') \<noteq> length (archived_emails (db_conn st))" by simp
  then have "db' \<noteq> db_conn st" by auto
  with assms Inr show ?thesis by (simp add: store_email_metadata_def)
qed

text \<open>What a call that has written an attachment returns, counts and logs.\<close>

lemma pse_when_written:
  assumes "written (trace (snd (process_single_email U E st i))) \<noteq> written (trace st)"
  shows "fst (process_single_email U E st i) =
           (\<not> (delete_after_archive (config st) \<and> imap_store_raises E i)) \<and>
         error_count (snd (process_single_email U E st i)) =
           (if delete_after_archive (config st) \<and> imap_store_raises E i
            then Suc (error_count st) else error_count st) \<and>
         (db_conn (snd (process_single_email U E st i)) = db_conn st \<longrightarrow>
            Log ERROR ''Database error'' \<in>
              set (drop (length (trace st)) (trace (snd (process_single_email U E st i))))) \<and>
         (delete_after_archive (config st) \<longrightarrow>
            Flag i \<in> set (drop (length (trace st)) (trace (snd (process_single_email U E st i)))))"
proof (cases "imap_fetch E i")
  case FetchRaises
  with assms show ?thesis
    by (simp add: process_single_email_def failed_simps emit_simps written_append written_simps)
next
  case FetchNotOK
  with assms show ?thesis
    by (simp add: process_single_email_def emit_simps written_append written_simps)
next
  case (FetchOK msg)
  let ?sub = "safe_decode_header U (h_subject msg)"
  let ?snd = "safe_decode_header U (h_from msg)"
  let ?dat = "safe_decode_header U (h_date msg)"
  let ?dir = "archive_dir_of U E st (fst ?snd) i"
  let ?head = "[Fetch i] @ snd ?sub @ snd ?snd @ snd ?dat"
  let ?st1 = "emit ?head st"
  have w1: "written (trace ?st1) = written (trace st)"
    by (simp add: emit_simps written_append written_simps written_safe_decode_header)
  show ?thesis
  proof (cases "makedirs_raises E ?dir")
    case True
    with FetchOK w1 assms show ?thesis
      by (simp add: process_single_email_def Let_def failed_simps emit_simps written_append
            written_simps written_safe_decode_header)
  next
    case False
    obtain new names where
      sv: "save_attachments U E ?dir (msg_walk msg) ([], [MakeDirs ?dir]) = (names, MakeDirs ?dir # new)"
      and wn: "length (written new) = length names"
      using save_attachments_start [of U E ?dir "msg_walk msg"] by (elim exE conjE)
    let ?st2 = "emit (MakeDirs ?dir # new) ?st1"
    have w2: "written (trace ?st2) = written (trace st) @ written new"
      using w1 by (simp add: emit_simps written_append written_simps written_safe_decode_header)
    show ?thesis
    proof (cases "names = []")
      case True
      with wn have "written new = []" by simp
      with FetchOK False sv True w2 assms show ?thesis
        by (simp add: process_single_email_def Let_def emit_simps written_append written_simps
              written_safe_decode_header)
    next
      case nonempty: False
      let ?st3 = "store_email_metadata U E ?st2 i (fst ?sub) (fst ?snd) (fst ?dat) names ?dir"
      let ?tail = "if delete_after_archive (config st)
                   then (if imap_store_raises E i
                         then [Flag i, Log ERROR ''Error processing email''] else [Flag i])
                   else []"
      have db2: "db_conn ?st2 = db_conn st" by (simp add: emit_simps)
      have t2: "trace ?st2 = trace st @ ?head @ MakeDirs ?dir # new"
        by (simp add: emit_simps)
      obtain ev where ev: "trace ?st3 = trace ?st2 @ ev"
        using store_trace_grows [of U E ?st2 i "fst ?sub" "fst ?snd" "fst ?dat" names ?dir]
        by (elim exE)
      have fin: "fst (process_single_email U E st i) =
             (\<not> (delete_after_archive (config st) \<and> imap_store_raises E i)) \<and>
           error_count (snd (process_single_email U E st i)) =
             (if delete_after_archive (config st) \<and> imap_store_raises E i
              then Suc (error_count st) else error_count st) \<and>
           db_conn (snd (process_single_email U E st i)) = db_conn ?st3 \<and>
           trace (snd (process_single_email U E st i)) = trace ?st3 @ ?tail"
        using FetchOK False sv nonempty
        by (simp add: process_single_email_def Let_def failed_simps emit_simps store_frame)
      have dropped: "drop (length (trace st)) (trace (snd (process_single_email U E st i))) =
          ?head @ (MakeDirs ?dir # new) @ ev @ ?tail"
        using fin ev t2 by simp
      have flag: "delete_after_archive (config st) \<longrightarrow> Flag i \<in> set ?tail"
        by simp
      have logged: "db_conn (snd (process_single_email U E st i)) = db_conn st \<longrightarrow>
          Log ERROR ''Database error'' \<in> set ev"
      proof
        assume "db_conn (snd (process_single_email U E st i)) = db_conn st"
        with fin db2 have "db_conn ?st3 = db_conn ?st2" by simp
        from store_unchanged_logs [OF this] ev
        have "ev = [Log ERROR ''Database error'']" by simp
        then show "Log ERROR ''Database error'' \<in> set ev" by simp
      qed
      show ?thesis
        unfolding dropped using fin flag logged by auto
    qed
  qed
qed

lemma store_rejected:
  assumes "has_record (db_conn st) i \<or> db_fault E i 0"
  shows "store_email_metadata U E (st\<lparr>trace := tr\<rparr>) i s sn d a p =
           emit [Log ERROR ''Database error''] (st\<lparr>trace := tr\<rparr>)"
proof -
  have "\<exists>e. store_try U (db_fault E i) (db_conn st) i s sn d a p = Inl e"
    using assms by (cases "db_fault E i 0") (simp_all add: store_try_def insert_archived_email_def)
  then obtain e where "store_try U (db_fault E i) (db_conn st) i s sn d a p = Inl e"
    by (elim exE)
  then show ?thesis by (simp add: store_email_metadata_def)
qed

lemma pse_db_unchanged_when_rejected:
  assumes "has_record (db_conn st) i \<or> db_fault E i 0"
  shows "db_conn (snd (process_single_email U E st i)) = db_conn st"
  by (simp add: process_single_email_def Let_def failed_simps emit_simps
        store_rejected [OF assms] emit_def split: fetch_result.splits)


section \<open>The claims on the store\<close>

text \<open>
  C3, as the code has it: a call of \<open>store_email_metadata\<close> either leaves the database
  as it was and logs an error, or adds the record and one keyword row for every keyword
  of subject and sender (none when they hold no qualifying token) and nothing else. It
  changes neither the error counter nor anything else of the archiver, and what
  \<open>process_single_email\<close> returns and counts does not depend on the database or on
  whether its statements fail: the failure reaches the log, not the caller.
\<close>

theorem store_email_metadata_all_or_nothing:
  "(let st' = store_email_metadata U E st eid subject sender date_received attachments archive_path
    in config st' = config st \<and> error_count st' = error_count st \<and>
       ((db_conn st' = db_conn st \<and> trace st' = trace st @ [Log ERROR ''Database error'']) \<or>
        (trace st' = trace st \<and>
         (\<exists>row krows.
            archived_emails (db_conn st') = archived_emails (db_conn st) @ [row] \<and>
            ae_email_id row = eid \<and> ae_subject row = subject \<and> ae_sender row = sender \<and>
            ae_date_received row = date_received \<and>
            ae_attachments row = join (lit '', '') attachments \<and>
            ae_archive_path row = archive_path \<and>
            search_index (db_conn st') = search_index (db_conn st) @ krows \<and>
            map si_keyword krows = keywords_of U subject sender)))) \<and>
   fst (process_single_email U E st i) =
     fst (process_single_email U (E\<lparr>db_fault := f\<rparr>) (st\<lparr>db_conn := db\<rparr>) i) \<and>
   error_count (snd (process_single_email U E st i)) =
     error_count (snd (process_single_email U (E\<lparr>db_fault := f\<rparr>) (st\<lparr>db_conn := db\<rparr>) i))"
proof (intro conjI)
  show "let st' = store_email_metadata U E st eid subject sender date_received attachments archive_path
    in config st' = config st \<and> error_count st' = error_count st \<and>
       ((db_conn st' = db_conn st \<and> trace st' = trace st @ [Log ERROR ''Database error'']) \<or>
        (trace st' = trace st \<and>
         (\<exists>row krows.
            archived_emails (db_conn st') = archived_emails (db_conn st) @ [row] \<and>
            ae_email_id row = eid \<and> ae_subject row = subject \<and> ae_sender row = sender \<and>
            ae_date_received row = date_received \<and>
            ae_attachments row = join (lit '', '') attachments \<and>
            ae_archive_path row = archive_path \<and>
            search_index (db_conn st') = search_index (db_conn st) @ krows \<and>
            map si_keyword krows = keywords_of U subject sender)))"
  proof (cases "store_try U (db_fault E eid) (db_conn st) eid subject sender date_received attachments archive_path")
    case (Inl e)
    then show ?thesis by (simp add: store_email_metadata_def emit_def)
  next
    case (Inr db')
    from store_try_committed [OF Inr] Inr show ?thesis
      by (simp add: store_email_metadata_def)
  qed
qed (simp_all add: pse_outcome_independent_of_store)


theorem store_email_metadata_all_or_nothing_witness:
  "db_conn (store_email_metadata ascii_runtime E_fault st0 (lit ''1'') (lit ''alpha beta gamma'')
      (lit ''bob@example.org'') (lit ''Mon, 1 Jan 2024'') [lit ''report_final.pdf'']
      (lit ''./email_archive/2024-01-01/bob/1'')) = empty_db \<and>
   error_count (store_email_metadata ascii_runtime E_fault st0 (lit ''1'') (lit ''alpha beta gamma'')
      (lit ''bob@example.org'') (lit ''Mon, 1 Jan 2024'') [lit ''report_final.pdf'']
      (lit ''./email_archive/2024-01-01/bob/1'')) = 0"
proof -
  have d: "db_conn (store_email_metadata ascii_runtime E_fault st0 (lit ''1'') (lit ''alpha beta gamma'')
      (lit ''bob@example.org'') (lit ''Mon, 1 Jan 2024'') [lit ''report_final.pdf'']
      (lit ''./email_archive/2024-01-01/bob/1'')) = empty_db"
    by code_simp
  have e: "error_count st0 = 0"
    by (simp add: st0_def EmailArchiver_init_def)
  from store_email_metadata_all_or_nothing [of ascii_runtime E_fault st0 "lit ''1''"
      "lit ''alpha beta gamma''" "lit ''bob@example.org''" "lit ''Mon, 1 Jan 2024''"
      "[lit ''report_final.pdf'']" "lit ''./email_archive/2024-01-01/bob/1''"]
  have "error_count (store_email_metadata ascii_runtime E_fault st0 (lit ''1'') (lit ''alpha beta gamma'')
      (lit ''bob@example.org'') (lit ''Mon, 1 Jan 2024'') [lit ''report_final.pdf'']
      (lit ''./email_archive/2024-01-01/bob/1'')) = error_count st0"
    by (simp add: Let_def)
  with d e show ?thesis by simp
qed

text \<open>
  C3 as stated fails twice. When the second keyword insert fails, the transaction is
  rolled back, and \<open>process_single_email\<close> still returns \<open>True\<close> with the error counter
  at 0: the failure is not reported to the caller. And a message whose subject \<open>Hi\<close>
  and sender \<open>a@b\<close> hold no token of three characters is committed as a record with no
  keyword row.
\<close>

theorem store_failure_not_reported_counterexample:
  "fst (process_single_email ascii_runtime E_fault st0 (lit ''1'')) \<and>
   error_count (snd (process_single_email ascii_runtime E_fault st0 (lit ''1''))) = 0 \<and>
   db_conn (snd (process_single_email ascii_runtime E_fault st0 (lit ''1''))) = empty_db \<and>
   last (trace (snd (process_single_email ascii_runtime E_fault st0 (lit ''1'')))) =
     Log ERROR ''Database error'' \<and>
   map ae_email_id (archived_emails (db_conn (store_email_metadata ascii_runtime E0 st0 (lit ''2'')
      (lit ''Hi'') (lit ''a@b'') (lit ''Tue, 2 Jan 2024'') [lit ''x.pdf'']
      (lit ''./email_archive/2024-01-02/a/2'')))) = [lit ''2''] \<and>
   search_index (db_conn (store_email_metadata ascii_runtime E0 st0 (lit ''2'')
      (lit ''Hi'') (lit ''a@b'') (lit ''Tue, 2 Jan 2024'') [lit ''x.pdf'']
      (lit ''./email_archive/2024-01-02/a/2''))) = []"
  by code_simp




text \<open>
  C1, as the code has it: a call of \<open>process_single_email\<close> changes the store only when
  it has written at least one attachment, and then by exactly one record, with the
  identifier of the message, which the store did not hold before. When it has written an
  attachment, the store holds no record with the identifier yet and no statement of the
  transaction fails, that record is added. When the store holds the identifier already,
  or the insert of the record fails, the store is left as it was. And a call that has
  written an attachment returns \<open>True\<close>, with or without a record, unless the message is
  to be flagged and the flagging raises, which counts one error; when it has left the
  store as it was, it has logged a database error.
\<close>

theorem record_only_with_written_attachment:
  "(db_conn (snd (process_single_email U E st i)) \<noteq> db_conn st \<longrightarrow>
      written (trace (snd (process_single_email U E st i))) \<noteq> written (trace st) \<and>
      \<not> has_record (db_conn st) i \<and>
      has_record (db_conn (snd (process_single_email U E st i))) i \<and>
      length (archived_emails (db_conn (snd (process_single_email U E st i)))) =
        Suc (length (archived_emails (db_conn st)))) \<and>
   (written (trace (snd (process_single_email U E st i))) \<noteq> written (trace st) \<and>
    \<not> has_record (db_conn st) i \<and> (\<forall>k. \<not> db_fault E i k) \<longrightarrow>
      has_record (db_conn (snd (process_single_email U E st i))) i \<and>
      length (archived_emails (db_conn (snd (process_single_email U E st i)))) =
        Suc (length (archived_emails (db_conn st)))) \<and>
   (has_record (db_conn st) i \<or> db_fault E i 0 \<longrightarrow>
      db_conn (snd (process_single_email U E st i)) = db_conn st) \<and>
   (written (trace (snd (process_single_email U E st i))) \<noteq> written (trace st) \<longrightarrow>
      fst (process_single_email U E st i) =
        (\<not> (delete_after_archive (config st) \<and> imap_store_raises E i)) \<and>
      error_count (snd (process_single_email U E st i)) =
        (if delete_after_archive (config st) \<and> imap_store_raises E i
         then Suc (error_count st) else error_count st) \<and>
      (db_conn (snd (process_single_email U E st i)) = db_conn st \<longrightarrow>
         Log ERROR ''Database error'' \<in>
           set (drop (length (trace st)) (trace (snd (process_single_email U E st i))))))"
proof (rule conjI)
  show "db_conn (snd (process_single_email U E st i)) \<noteq> db_conn st \<longrightarrow>
      written (trace (snd (process_single_email U E st i))) \<noteq> written (trace st) \<and>
      \<not> has_record (db_conn st) i \<and>
      has_record (db_conn (snd (process_single_email U E st i))) i \<and>
      length (archived_emails (db_conn (snd (process_single_email U E st i)))) =
        Suc (length (archived_emails (db_conn st)))"
    using pse_store_and_files [of U E st i] by blast
next
  show "(written (trace (snd (process_single_email U E st i))) \<noteq> written (trace st) \<and>
    \<not> has_record (db_conn st) i \<and> (\<forall>k. \<not> db_fault E i k) \<longrightarrow>
      has_record (db_conn (snd (process_single_email U E st i))) i \<and>
      length (archived_emails (db_conn (snd (process_single_email U E st i)))) =
        Suc (length (archived_emails (db_conn st)))) \<and>
   (has_record (db_conn st) i \<or> db_fault E i 0 \<longrightarrow>
      db_conn (snd (process_single_email U E st i)) = db_conn st) \<and>
   (written (trace (snd (process_single_email U E st i))) \<noteq> written (trace st) \<longrightarrow>
      fst (process_single_email U E st i) =
        (\<not> (delete_after_archive (config st) \<and> imap_store_raises E i)) \<and>
      error_count (snd (process_single_email U E st i)) =
        (if delete_after_archive (config st) \<and> imap_store_raises E i
         then Suc (error_count st) else error_count st) \<and>
      (db_conn (snd (process_single_email U E st i)) = db_conn st \<longrightarrow>
         Log ERROR ''Database error'' \<in>
           set (drop (length (trace st)) (trace (snd (process_single_email U E st i))))))"
  proof (rule conjI)
    show "written (trace (snd (process_single_email U E st i))) \<noteq> written (trace st) \<and>
      \<not> has_record (db_conn st) i \<and> (\<forall>k. \<not> db_fault E i k) \<longrightarrow>
        has_record (db_conn (snd (process_single_email U E st i))) i \<and>
        length (archived_emails (db_conn (snd (process_single_email U E st i)))) =
          Suc (length (archived_emails (db_conn st)))"
      using pse_store_and_files [of U E st i] by blast
  next
    show "(has_record (db_conn st) i \<or> db_fault E i 0 \<longrightarrow>
        db_conn (snd (process_single_email U E st i)) = db_conn st) \<and>
     (written (trace (snd (process_single_email U E st i))) \<noteq> written (trace st) \<longrightarrow>
        fst (process_single_email U E st i) =
          (\<not> (delete_after_archive (config st) \<and> imap_store_raises E i)) \<and>
        error_count (snd (process_single_email U E st i)) =
          (if delete_after_archive (config st) \<and> imap_store_raises E i
           then Suc (error_count st) else error_count st) \<and>
        (db_conn (snd (process_single_email U E st i)) = db_conn st \<longrightarrow>
           Log ERROR ''Database error'' \<in>
             set (drop (length (trace st)) (trace (snd (process_single_email U E st i))))))"
    proof (rule conjI)
      show "has_record (db_conn st) i \<or> db_fault E i 0 \<longrightarrow>
          db_conn (snd (process_single_email U E st i)) = db_conn st"
        using pse_db_unchanged_when_rejected [of st i E U] by blast
    next
      show "written (trace (snd (process_single_email U E st i))) \<noteq> written (trace st) \<longrightarrow>
        fst (process_single_email U E st i) =
          (\<not> (delete_after_archive (config st) \<and> imap_store_raises E i)) \<and>
        error_count (snd (process_single_email U E st i)) =
          (if delete_after_archive (config st) \<and> imap_store_raises E i
           then Suc (error_count st) else error_count st) \<and>
        (db_conn (snd (process_single_email U E st i)) = db_conn st \<longrightarrow>
           Log ERROR ''Database error'' \<in>
             set (drop (length (trace st)) (trace (snd (process_single_email U E st i)))))"
        using pse_when_written [of U E st i] by blast
    qed
  qed
qed

theorem record_only_with_written_attachment_witness:
  "written (trace (snd (process_single_email ascii_runtime E0 st0 (lit ''1'')))) =
     [(lit ''./email_archive/2024-01-01/bob/1/report_final.pdf'', [37, 80, 68, 70])] \<and>
   has_record (db_conn (snd (process_single_email ascii_runtime E0 st0 (lit ''1'')))) (lit ''1'') \<and>
   length (archived_emails (db_conn (snd (process_single_email ascii_runtime E0 st0 (lit ''1''))))) = 1 \<and>
   fst (process_single_email ascii_runtime E0 st0 (lit ''1'')) \<and>
   error_count (snd (process_single_email ascii_runtime E0 st0 (lit ''1''))) = 0"
proof -
  have w: "written (trace (snd (process_single_email ascii_runtime E0 st0 (lit ''1'')))) =
     [(lit ''./email_archive/2024-01-01/bob/1/report_final.pdf'', [37, 80, 68, 70])]"
    by code_simp
  have t: "written (trace st0) = []" "archived_emails (db_conn st0) = []"
    "\<not> delete_after_archive (config st0)" "error_count st0 = 0"
    by (simp_all add: st0_def cfg0_def EmailArchiver_init_def empty_db_def written_simps)
  have n: "\<not> has_record (db_conn st0) (lit ''1'')"
    by (simp add: has_record_def t)
  have f: "\<forall>k. \<not> db_fault E0 (lit ''1'') k"
    by (simp add: E0_def)
  from record_only_with_written_attachment [of ascii_runtime E0 st0 "lit ''1''"] w t n f
  have "has_record (db_conn (snd (process_single_email ascii_runtime E0 st0 (lit ''1'')))) (lit ''1'') \<and>
   length (archived_emails (db_conn (snd (process_single_email ascii_runtime E0 st0 (lit ''1''))))) = Suc 0 \<and>
   fst (process_single_email ascii_runtime E0 st0 (lit ''1'')) \<and>
   error_count (snd (process_single_email ascii_runtime E0 st0 (lit ''1''))) = 0"
    by simp
  with w show ?thesis by simp
qed

text \<open>
  C1 as stated fails. When a statement of the transaction fails, the attachment is on
  disk, the call returns \<open>True\<close> and the store holds no record. When the identifier is
  already in the store for an earlier message, the attachment of the new message is
  written under its own directory, and the only record is the one of the earlier
  message, with the earlier directory.
\<close>

theorem attachment_written_without_record_counterexample:
  "fst (process_single_email ascii_runtime E_fault st0 (lit ''1'')) \<and>
   written (trace (snd (process_single_email ascii_runtime E_fault st0 (lit ''1'')))) =
     [(lit ''./email_archive/2024-01-01/bob/1/report_final.pdf'', [37, 80, 68, 70])] \<and>
   archived_emails (db_conn (snd (process_single_email ascii_runtime E_fault st0 (lit ''1'')))) = [] \<and>
   fst (process_single_email ascii_runtime E2 st1 (lit ''1'')) \<and>
   written (trace (snd (process_single_email ascii_runtime E2 st1 (lit ''1'')))) =
     [(lit ''./email_archive/2024-01-01/bob/1/report_final.pdf'', [37, 80, 68, 70]),
      (lit ''./email_archive/2024-01-02/al/1/report_final.pdf'', [37, 80, 68, 70])] \<and>
   map ae_archive_path
     (archived_emails (db_conn (snd (process_single_email ascii_runtime E2 st1 (lit ''1''))))) =
     [lit ''./email_archive/2024-01-01/bob/1'']"
  by code_simp

section \<open>The claims on the pipeline\<close>

text \<open>
  C5: a run that has connected always ends with the closing step: \<open>close\<close> is called
  and, unless it raised, \<open>logout\<close>; what they raise is dropped (the run returns the
  archiver). And when the error counter has reached \<open>max_errors\<close> after the identifiers
  \<open>pre\<close> of the batch, none of the remaining identifiers \<open>post\<close> is fetched.
\<close>

theorem error_threshold_stops_batch_then_closes:
  "(imap_connect E \<longrightarrow>
      (\<exists>evs. trace (process_emails U E st) =
         trace st @ Search # evs @ (if imap_close_raises E then [Close] else [Close, Logout]))) \<and>
   (imap_connect E \<and> imap_search E = SearchOK ids \<and>
    take (max_emails_per_session st) ids = pre @ post \<and>
    max_errors st \<le> error_count (fst (process_batch U E (emit [Search] st) 0 pre))
      \<longrightarrow> fetched (trace (process_emails U E st)) =
          fetched (trace (fst (process_batch U E (emit [Search] st) 0 pre))))"
proof (intro conjI impI)
  assume "imap_connect E"
  then show "\<exists>evs. trace (process_emails U E st) =
         trace st @ Search # evs @ (if imap_close_raises E then [Close] else [Close, Logout])"
    by (rule pe_closes)
next
  assume a: "imap_connect E \<and> imap_search E = SearchOK ids \<and>
    take (max_emails_per_session st) ids = pre @ post \<and>
    max_errors st \<le> error_count (fst (process_batch U E (emit [Search] st) 0 pre))"
  then have "max_errors (emit [Search] st) \<le>
      error_count (fst (process_batch U E (emit [Search] st) 0 pre))"
    by (simp add: emit_simps)
  from batch_prefix_stop [OF this, of post] a
  show "fetched (trace (process_emails U E st)) =
          fetched (trace (fst (process_batch U E (emit [Search] st) 0 pre)))"
    by (simp add: process_emails_def Let_def closing_simps emit_simps fetched_append fetched_simps)
qed

theorem error_threshold_stops_batch_then_closes_witness:
  "error_count (fst (process_batch ascii_runtime E_bad (emit [Search] st0) 0 ids5)) = 5 \<and>
   max_errors st0 = 5 \<and>
   fetched (trace (process_emails ascii_runtime E_bad st0)) = ids5 \<and>
   trace (process_emails ascii_runtime E_bad st0) =
     trace st0 @ Search # butlast (butlast (tl (trace (process_emails ascii_runtime E_bad st0))))
       @ [Close, Logout]"
proof -
  have h1: "imap_connect E_bad" "imap_search E_bad = SearchOK (ids5 @ ids2)"
    "\<not> imap_close_raises E_bad"
    by (simp_all add: E_bad_def E0_def)
  have h2: "take (max_emails_per_session st0) (ids5 @ ids2) = ids5 @ ids2"
    by (simp add: st0_def EmailArchiver_init_def ids5_def ids2_def)
  have h3: "error_count (fst (process_batch ascii_runtime E_bad (emit [Search] st0) 0 ids5)) = 5"
    by code_simp
  have h4: "max_errors st0 = 5"
    by (simp add: st0_def EmailArchiver_init_def)
  have h5: "fetched (trace (fst (process_batch ascii_runtime E_bad (emit [Search] st0) 0 ids5))) = ids5"
    by code_simp
  have h6: "trace st0 = []"
    by (simp add: st0_def EmailArchiver_init_def)
  from error_threshold_stops_batch_then_closes
         [of E_bad ascii_runtime st0 "ids5 @ ids2" ids5 ids2] h1 h2 h3 h4
  have "(\<exists>evs. trace (process_emails ascii_runtime E_bad st0) =
           trace st0 @ Search # evs @ [Close, Logout])"
    and "fetched (trace (process_emails ascii_runtime E_bad st0)) =
          fetched (trace (fst (process_batch ascii_runtime E_bad (emit [Search] st0) 0 ids5)))"
    by simp_all
  then show ?thesis using h3 h4 h5 h6 by (auto simp: butlast_append)
qed



section \<open>The search query\<close>


lemma like_percent_step:
  "like (of_char CHR ''%'' # ps) t =
     (like ps t \<or> (case t of [] \<Rightarrow> False | c # cs \<Rightarrow> like (of_char CHR ''%'' # ps) cs))"
  by (cases t) simp_all
















section \<open>Evaluations of the code where it departs from its description\<close>

text \<open>
  Two facts behind the evaluations below, for every input: \<open>safe_decode_header\<close> reads
  nothing but the first chunk, and of any two or more keyword rows of one transaction
  the second refers to the row id of the first keyword row, not to the record.
\<close>

lemma safe_decode_header_fallback:
  "decode_header U h = DecodeRaises \<Longrightarrow>
   safe_decode_header U (Some h) = (take 100 h, [Log WARNING ''Header decode failed''])"
  by (simp add: safe_decode_header_def)

lemma safe_decode_header_ignores_rest:
  "decode_header U h = Decoded (c # rest) \<Longrightarrow>
   safe_decode_header U (Some h) =
     safe_decode_header (U\<lparr> decode_header := (\<lambda>x. Decoded [c]) \<rparr>) (Some h)"
  by (cases c) (simp add: safe_decode_header_def split: chunk_text.splits)

lemma insert_keywords_later_rows:
  assumes "insert_keywords f k db r (kw1 # kw2 # kws) = Inr (db', r')"
  shows "\<exists>row1 row2 rows. search_index db' = search_index db @ row1 # row2 # rows \<and>
           si_email_id row1 = r \<and> si_email_id row2 = si_id row1"
proof (cases "insert_search_index (f k) db r kw1")
  case (Inl e)
  with assms show ?thesis by simp
next
  case (Inr p1)
  then obtain db1 r1 where one: "insert_search_index (f k) db r kw1 = Inr (db1, r1)"
    by (cases p1) simp
  show ?thesis
  proof (cases "insert_search_index (f (Suc k)) db1 r1 kw2")
    case (Inl e)
    with assms one show ?thesis by simp
  next
    case (Inr p2)
    then obtain db2 r2 where two: "insert_search_index (f (Suc k)) db1 r1 kw2 = Inr (db2, r2)"
      by (cases p2) simp
    from assms one two have rest: "insert_keywords f (Suc (Suc k)) db2 r2 kws = Inr (db', r')"
      by simp
    from insert_keywords_rows [OF rest] obtain rows where
      rows: "search_index db' = search_index db2 @ rows"
      by (elim conjE exE)
    note s1 = insert_search_index_Inr [OF one]
    note s2 = insert_search_index_Inr [OF two]
    let ?row1 = "\<lparr> si_id = r1, si_email_id = r, si_keyword = kw1 \<rparr>"
    let ?row2 = "\<lparr> si_id = r2, si_email_id = r1, si_keyword = kw2 \<rparr>"
    show ?thesis
    proof (intro exI conjI)
      show "search_index db' = search_index db @ ?row1 # ?row2 # rows"
        using rows s1 s2 by simp
    qed simp_all
  qed
qed


text \<open>
  C2: on an empty database, the message with subject \<open>alpha beta gamma\<close> from
  \<open>bob@example.org\<close> gets the record 1 and four keyword rows. Only the first two of
  them refer to record 1: every row after the first takes the row id of the keyword row
  inserted before it, so the third refers to 2 and the fourth to 3, records that do not
  exist. Whatever order the set is iterated in, the third row inserted refers to 2.
\<close>

theorem keyword_rows_follow_lastrowid:
  "map ae_id (archived_emails (db_conn (store_email_metadata ascii_runtime E0 st0 (lit ''1'')
      (lit ''alpha beta gamma'') (lit ''bob@example.org'') (lit ''Mon, 1 Jan 2024'')
      [lit ''report_final.pdf''] (lit ''./email_archive/2024-01-01/bob/1'')))) = [1] \<and>
   map (\<lambda>r. (si_id r, si_email_id r, si_keyword r))
     (search_index (db_conn (store_email_metadata ascii_runtime E0 st0 (lit ''1'')
      (lit ''alpha beta gamma'') (lit ''bob@example.org'') (lit ''Mon, 1 Jan 2024'')
      [lit ''report_final.pdf''] (lit ''./email_archive/2024-01-01/bob/1'')))) =
     [(1, 1, lit ''alpha''), (2, 1, lit ''beta''), (3, 2, lit ''gamma''),
      (4, 3, lit ''bobexampleorg'')]"
  by code_simp

text \<open>
  C7: of the header \<open>Re: =?utf-8?q?Report?=\<close>, which \<open>decode_header\<close> splits into the
  chunks \<open>Re: \<close> and \<open>Report\<close>, \<open>safe_decode_header\<close> returns the first chunk only.
\<close>

theorem safe_decode_header_first_chunk_only:
  "safe_decode_header mime_runtime (Some (lit ''Re: =?utf-8?q?Report?='')) = (lit ''Re: '', [])"
  by code_simp

text \<open>
  C9: on an archiver object without the attribute \<open>db_conn\<close>, \<open>search_emails\<close> raises
  \<open>AttributeError\<close> to its caller, and nothing is logged.
\<close>

theorem search_without_connection_raises:
  "search_emails U None query = (Inl AttributeError, [])"
  by (simp add: search_emails_def)

end
